theory Spec2Isabelle
  imports Main
begin

section \<open>The search cache of \<open>packages/core/src/utils/searchCache.ts\<close>\<close>

text \<open>
  The class \<open>SearchCache<T>\<close> keeps its entries in a JavaScript \<open>Map\<close>, whose iteration
  order is the insertion order. The embedding represents that map by the list of its
  key/entry pairs, oldest insertion first. Numbers (\<open>Date.now()\<close>, time-to-live values,
  \<open>maxSize\<close>) are taken as integers; \<open>undefined\<close> is \<open>None\<close>. The payload type \<open>'v\<close> stands for the
  defined values of \<open>T\<close>.
\<close>

subsection \<open>The insertion-ordered map\<close>

type_synonym ('k, 'e) jsmap = "('k \<times> 'e) list"

text \<open>\<open>Map.prototype.get\<close>: the entry stored under the key, or \<open>undefined\<close>.\<close>

fun map_get :: "('k, 'e) jsmap \<Rightarrow> 'k \<Rightarrow> 'e option" where
  "map_get [] k = None"
| "map_get ((k', e) # m) k = (if k' = k then Some e else map_get m k)"

text \<open>\<open>Map.prototype.has\<close>, which is also the boolean that \<open>Map.prototype.delete\<close> returns.\<close>

definition map_has :: "('k, 'e) jsmap \<Rightarrow> 'k \<Rightarrow> bool" where
  "map_has m k = (case map_get m k of None \<Rightarrow> False | Some e \<Rightarrow> True)"

text \<open>\<open>Map.prototype.delete\<close>: the map without the key; the other pairs keep their order.\<close>

fun map_delete :: "('k, 'e) jsmap \<Rightarrow> 'k \<Rightarrow> ('k, 'e) jsmap" where
  "map_delete [] k = []"
| "map_delete ((k', e) # m) k = (if k' = k then map_delete m k else (k', e) # map_delete m k)"

text \<open>
  \<open>Map.prototype.set\<close>: a key that is present keeps its place in the order and gets the
  new entry; a key that is absent is appended at the end.
\<close>

fun map_set :: "('k, 'e) jsmap \<Rightarrow> 'k \<Rightarrow> 'e \<Rightarrow> ('k, 'e) jsmap" where
  "map_set [] k e = [(k, e)]"
| "map_set ((k', e') # m) k e = (if k' = k then (k, e) # m else (k', e') # map_set m k e)"

text \<open>\<open>map.keys().next().value\<close>: the first key in insertion order, \<open>undefined\<close> on an empty map.\<close>

fun map_first_key :: "('k, 'e) jsmap \<Rightarrow> 'k option" where
  "map_first_key [] = None"
| "map_first_key ((k, e) # m) = Some k"

text \<open>\<open>Map.prototype.size\<close>.\<close>

definition map_size :: "('k, 'e) jsmap \<Rightarrow> int" where
  "map_size m = int (length m)"

text \<open>
  The truth value of \<open>oldestKey\<close> in \<open>if (oldestKey)\<close>: \<open>undefined\<close> and the empty string
  are the falsy values a \<open>string | undefined\<close> can take.
\<close>

fun truthy :: "string option \<Rightarrow> bool" where
  "truthy None = False"
| "truthy (Some k) = (if k = [] then False else True)"

subsection \<open>Entries and the cache object\<close>

record 'v CacheEntry =
  entry_value :: 'v
  timestamp :: int
  expiresAt :: int

record 'v SearchCache =
  cache :: "(string, 'v CacheEntry) jsmap"
  maxSize :: int
  defaultTtlMs :: int

record SearchCacheOptions =
  opt_maxSize :: "int option"
  opt_ttlMs :: "int option"

text \<open>
  The constructor: \<open>options?.maxSize ?? 100\<close> and \<open>options?.ttlMs ?? 5 * 60 * 1000\<close>, on an
  empty map. Its body has no \<open>throw\<close>.
\<close>

definition constructor :: "SearchCacheOptions option \<Rightarrow> 'v SearchCache" where
  "constructor options =
     \<lparr> cache = [],
       maxSize = (case options of None \<Rightarrow> 100
                  | Some opts \<Rightarrow> (case opt_maxSize opts of None \<Rightarrow> 100 | Some n \<Rightarrow> n)),
       defaultTtlMs = (case options of None \<Rightarrow> 5 * 60 * 1000
                  | Some opts \<Rightarrow> (case opt_ttlMs opts of None \<Rightarrow> 5 * 60 * 1000 | Some t \<Rightarrow> t)) \<rparr>"

text \<open>
  The outcome of the expression \<open>new SearchCache(options)\<close>: a thrown error (\<open>Inl\<close>) or the
  instance (\<open>Inr\<close>). As the constructor throws nowhere, the outcome is always the instance.
\<close>

datatype config_error = InvalidConfiguration

definition new_SearchCache :: "SearchCacheOptions option \<Rightarrow> config_error + 'v SearchCache" where
  "new_SearchCache options = Inr (constructor options)"

subsection \<open>The operations\<close>

text \<open>
  \<open>get(key)\<close> at the time \<open>now\<close> that \<open>Date.now()\<close> returns: the cache afterwards and the
  returned value.
\<close>

definition get :: "'v SearchCache \<Rightarrow> string \<Rightarrow> int \<Rightarrow> 'v SearchCache \<times> 'v option" where
  "get c key now =
     (case map_get (cache c) key of
        None \<Rightarrow> (c, None)
      | Some entry \<Rightarrow>
          if now > expiresAt entry
          then (c \<lparr> cache := map_delete (cache c) key \<rparr>, None)
          else (c \<lparr> cache := map_set (map_delete (cache c) key) key entry \<rparr>,
                Some (entry_value entry)))"

text \<open>The map after the eviction step that opens \<open>set\<close>.\<close>

definition evict_oldest :: "'v SearchCache \<Rightarrow> (string, 'v CacheEntry) jsmap" where
  "evict_oldest c =
     (if map_size (cache c) \<ge> maxSize c
      then (case map_first_key (cache c) of
              None \<Rightarrow> cache c
            | Some oldestKey \<Rightarrow>
                if truthy (Some oldestKey) then map_delete (cache c) oldestKey else cache c)
      else cache c)"

text \<open>The time-to-live that \<open>set\<close> adds to \<open>now\<close>: \<open>ttlMs ?? this.defaultTtlMs\<close>.\<close>

definition effective_ttl :: "'v SearchCache \<Rightarrow> int option \<Rightarrow> int" where
  "effective_ttl c ttlMs = (case ttlMs of None \<Rightarrow> defaultTtlMs c | Some t \<Rightarrow> t)"

definition set_entry ::
  "'v SearchCache \<Rightarrow> string \<Rightarrow> 'v \<Rightarrow> int option \<Rightarrow> int \<Rightarrow> 'v SearchCache" where
  "set_entry c key v ttlMs now =
     c \<lparr> cache := map_set (evict_oldest c) key
            \<lparr> entry_value = v, timestamp = now, expiresAt = now + effective_ttl c ttlMs \<rparr> \<rparr>"

text \<open>\<open>has(key)\<close> is \<open>this.get(key) !== undefined\<close>, so it leaves the cache as \<open>get\<close> does.\<close>

definition has :: "'v SearchCache \<Rightarrow> string \<Rightarrow> int \<Rightarrow> 'v SearchCache \<times> bool" where
  "has c key now = (case get c key now of (c', r) \<Rightarrow> (c', r \<noteq> None))"

definition delete :: "'v SearchCache \<Rightarrow> string \<Rightarrow> 'v SearchCache \<times> bool" where
  "delete c key = (c \<lparr> cache := map_delete (cache c) key \<rparr>, map_has (cache c) key)"

definition clear :: "'v SearchCache \<Rightarrow> 'v SearchCache" where
  "clear c = c \<lparr> cache := [] \<rparr>"

text \<open>\<open>getStats()\<close>: the pair of \<open>size\<close> and \<open>maxSize\<close>.\<close>

definition getStats :: "'v SearchCache \<Rightarrow> int \<times> int" where
  "getStats c = (map_size (cache c), maxSize c)"

subsection \<open>Sequences of calls\<close>

datatype 'v call =
    Get string
  | Set string 'v "int option"
  | Has string
  | Delete string
  | Clear

text \<open>One call made at a given time, and a sequence of timed calls from left to right.\<close>

fun step :: "'v SearchCache \<Rightarrow> int \<times> 'v call \<Rightarrow> 'v SearchCache" where
  "step c (now, Get key) = fst (get c key now)"
| "step c (now, Set key v ttlMs) = set_entry c key v ttlMs now"
| "step c (now, Has key) = fst (has c key now)"
| "step c (now, Delete key) = fst (delete c key)"
| "step c (now, Clear) = clear c"

definition run :: "'v SearchCache \<Rightarrow> (int \<times> 'v call) list \<Rightarrow> 'v SearchCache" where
  "run c calls = foldl step c calls"

text \<open>What each call of a sequence hands back to its caller.\<close>

datatype 'v outcome = Returned "'v option" | Answered bool | Completed

fun call_outcome :: "'v SearchCache \<Rightarrow> int \<times> 'v call \<Rightarrow> 'v outcome" where
  "call_outcome c (now, Get key) = Returned (snd (get c key now))"
| "call_outcome c (now, Set key v ttlMs) = Completed"
| "call_outcome c (now, Has key) = Answered (snd (has c key now))"
| "call_outcome c (now, Delete key) = Answered (snd (delete c key))"
| "call_outcome c (now, Clear) = Completed"

fun outcomes :: "'v SearchCache \<Rightarrow> (int \<times> 'v call) list \<Rightarrow> 'v outcome list" where
  "outcomes c [] = []"
| "outcomes c (a # calls) = call_outcome c a # outcomes (step c a) calls"

text \<open>The same \<open>get\<close> repeated at the given times: the cache at the end and every result.\<close>

fun get_repeatedly ::
  "'v SearchCache \<Rightarrow> string \<Rightarrow> int list \<Rightarrow> 'v SearchCache \<times> 'v option list" where
  "get_repeatedly c key [] = (c, [])"
| "get_repeatedly c key (now # nows) =
     (case get c key now of
        (c', r) \<Rightarrow> (case get_repeatedly c' key nows of (c'', rs) \<Rightarrow> (c'', r # rs)))"

subsection \<open>Properties of a cache state and of a call\<close>

text \<open>No stored entry expires before it was created.\<close>

definition entries_valid :: "'v SearchCache \<Rightarrow> bool" where
  "entries_valid c = list_all (\<lambda>p. timestamp (snd p) \<le> expiresAt (snd p)) (cache c)"

text \<open>A call is a \<open>set\<close> with an explicit negative time-to-live, or it is not.\<close>

fun ttl_nonneg :: "int \<times> 'v call \<Rightarrow> bool" where
  "ttl_nonneg (now, Set key v (Some ttl)) = (0 \<le> ttl)"
| "ttl_nonneg (now, other) = True"

text \<open>A call is a \<open>set\<close> under the empty string, or it is not.\<close>

fun key_nonempty :: "int \<times> 'v call \<Rightarrow> bool" where
  "key_nonempty (now, Set key v ttlMs) = (if key = [] then False else True)"
| "key_nonempty (now, other) = True"

definition within_capacity :: "'v SearchCache \<Rightarrow> bool" where
  "within_capacity c = (map_size (cache c) \<le> maxSize c)"

definition no_empty_key :: "'v SearchCache \<Rightarrow> bool" where
  "no_empty_key c = list_all (\<lambda>p. if fst p = [] then False else True) (cache c)"

subsection \<open>Example caches\<close>

text \<open>A cache of capacity 2 whose entries live 1000 ms.\<close>

definition cap2 :: "int SearchCache" where
  "cap2 = constructor (Some \<lparr> opt_maxSize = Some 2, opt_ttlMs = Some 1000 \<rparr>)"

text \<open>A cache of capacity 1 after \<open>set("", 1); set("a", 2)\<close>.\<close>

definition overfull :: "int SearchCache" where
  "overfull = run (constructor (Some \<lparr> opt_maxSize = Some 1, opt_ttlMs = None \<rparr>))
                  [(0, Set [] 1 None), (1, Set ''a'' 2 None)]"

text \<open>A cache that holds one entry, which expired at time 1.\<close>

definition stale :: "int SearchCache" where
  "stale = \<lparr> cache = [(''k'', \<lparr> entry_value = 7, timestamp = 0, expiresAt = 1 \<rparr>)],
             maxSize = 5, defaultTtlMs = 1 \<rparr>"

section \<open>Cache keys: \<open>SearchCache.generateKey\<close>\<close>














subsection \<open>\<open>JSON.stringify\<close>\<close>











subsection \<open>The key function\<close>




subsection \<open>Letter case and white space, as properties of strings\<close>







section \<open>Facts about the insertion-ordered map\<close>

lemmas eval_defs = set_entry_def get_def has_def delete_def clear_def constructor_def
  evict_oldest_def map_size_def effective_ttl_def getStats_def run_def

lemma map_get_map_delete_same: "map_get (map_delete m k) k = None"
  by (induction m) auto

lemma map_get_map_set_same: "map_get (map_set m k e) k = Some e"
  by (induction m) auto

lemma map_set_absent: "map_get m k = None \<Longrightarrow> map_set m k e = m @ [(k, e)]"
  by (induction m) (auto split: if_splits)

lemma length_map_delete_le: "length (map_delete m k) \<le> length m"
  by (induction m) auto

lemma length_map_set_le: "length (map_set m k e) \<le> Suc (length m)"
  by (induction m) auto

lemma length_map_delete_present:
  "map_get m k = Some e \<Longrightarrow> length (map_delete m k) < length m"
proof (induction m)
  case Nil
  then show ?case by simp
next
  case (Cons p m)
  obtain k' e' where p: "p = (k', e')" by (cases p)
  show ?case
  proof (cases "k' = k")
    case True
    have "length (map_delete m k) \<le> length m" by (rule length_map_delete_le)
    with True p show ?thesis by simp
  next
    case False
    with Cons p show ?thesis by simp
  qed
qed

lemma list_all_map_delete: "list_all P m \<Longrightarrow> list_all P (map_delete m k)"
  by (induction m) auto

lemma list_all_map_set: "list_all P m \<Longrightarrow> P (k, e) \<Longrightarrow> list_all P (map_set m k e)"
  by (induction m) auto

lemma list_all_map_get: "list_all P m \<Longrightarrow> map_get m k = Some e \<Longrightarrow> P (k, e)"
  by (induction m) (auto split: if_splits)

lemma list_all_evict_oldest: "list_all P (cache c) \<Longrightarrow> list_all P (evict_oldest c)"
  by (simp add: evict_oldest_def list_all_map_delete split: option.splits)

lemma has_state: "fst (has c key now) = fst (get c key now)"
  by (simp add: has_def split: prod.splits)

lemma step_fields [simp]:
  "maxSize (step c a) = maxSize c" "defaultTtlMs (step c a) = defaultTtlMs c"
  by (cases a; cases "snd a"; simp add: get_def has_def set_entry_def delete_def clear_def
      split: option.splits prod.splits)+

section \<open>Reading: misses, expiry and \<open>has\<close>\<close>

lemma get_absent: "map_get (cache c) key = None \<Longrightarrow> get c key now = (c, None)"
  by (simp add: get_def)

lemma get_repeatedly_absent:
  "map_get (cache c) key = None \<Longrightarrow>
   get_repeatedly c key nows = (c, replicate (length nows) None)"
  by (induction nows) (simp_all add: get_absent)

text \<open>
  Claim C5. \<open>get\<close> on a key without entry returns absent and leaves the cache as it is; on
  a key whose entry expired strictly before the current time it deletes the entry and
  returns absent; a value that \<open>get\<close> returns comes from an entry that has not expired;
  and any number of \<open>get\<close> calls on an absent key all return absent and leave the cache,
  hence its size, unchanged. \<open>get\<close> is a total function: it has no failing outcome.
\<close>

theorem get_miss_and_expiry:
  "(map_get (cache c) key = None \<longrightarrow> get c key now = (c, None))
   \<and> (map_get (cache c) key = Some e \<and> expiresAt e < now \<longrightarrow>
        get c key now = (c \<lparr> cache := map_delete (cache c) key \<rparr>, None)
        \<and> map_get (cache (fst (get c key now))) key = None)
   \<and> (snd (get c key now) = Some v \<longrightarrow>
        (\<exists>e'. map_get (cache c) key = Some e' \<and> now \<le> expiresAt e' \<and> entry_value e' = v))
   \<and> (map_get (cache c) key = None \<longrightarrow>
        get_repeatedly c key nows = (c, replicate (length nows) None)
        \<and> getStats (fst (get_repeatedly c key nows)) = getStats c)"
proof -
  have miss: "map_get (cache c) key = None \<longrightarrow> get c key now = (c, None)"
    by (simp add: get_def)
  have expired: "map_get (cache c) key = Some e \<and> expiresAt e < now \<longrightarrow>
        get c key now = (c \<lparr> cache := map_delete (cache c) key \<rparr>, None)
        \<and> map_get (cache (fst (get c key now))) key = None"
    by (simp add: get_def map_get_map_delete_same)
  have fresh: "snd (get c key now) = Some v \<longrightarrow>
        (\<exists>e'. map_get (cache c) key = Some e' \<and> now \<le> expiresAt e' \<and> entry_value e' = v)"
    by (auto simp add: get_def split: option.splits if_splits)
  have repeated: "map_get (cache c) key = None \<longrightarrow>
        get_repeatedly c key nows = (c, replicate (length nows) None)
        \<and> getStats (fst (get_repeatedly c key nows)) = getStats c"
    by (simp add: get_repeatedly_absent)
  from miss expired fresh repeated show ?thesis by blast
qed

text \<open>
  Claim C5, at concrete inputs: the expired entry under \<open>k\<close> is dropped by a \<open>get\<close> at
  time 2, and two \<open>get\<close> calls on the absent key \<open>q\<close> change nothing.
\<close>

theorem get_miss_and_expiry_witness:
  "get stale ''k'' 2 = (\<lparr> cache = [], maxSize = 5, defaultTtlMs = 1 \<rparr>, None)
   \<and> get stale ''q'' 2 = (stale, None)
   \<and> get_repeatedly stale ''q'' [2, 3] = (stale, [None, None])"
proof -
  have absent: "map_get (cache stale) ''q'' = None"
    by (simp add: stale_def)
  have present: "map_get (cache stale) ''k''
      = Some \<lparr> entry_value = 7, timestamp = 0, expiresAt = 1 \<rparr>
    \<and> expiresAt \<lparr> entry_value = 7 :: int, timestamp = 0, expiresAt = 1 \<rparr> < 2"
    by (simp add: stale_def)
  have deleted: "stale \<lparr> cache := map_delete (cache stale) ''k'' \<rparr>
      = \<lparr> cache = [], maxSize = 5, defaultTtlMs = 1 \<rparr>"
    by (simp add: stale_def)
  from present have expired: "get stale ''k'' 2 = (stale \<lparr> cache := map_delete (cache stale) ''k'' \<rparr>, None)"
    using get_miss_and_expiry [where c = stale and key = "''k''" and now = 2
        and e = "\<lparr> entry_value = 7, timestamp = 0, expiresAt = 1 \<rparr>"]
    by blast
  from absent have miss: "get stale ''q'' 2 = (stale, None)
      \<and> get_repeatedly stale ''q'' [2, 3] = (stale, replicate (length [2, 3 :: int]) None)"
    using get_miss_and_expiry [where c = stale and key = "''q''" and now = 2 and nows = "[2, 3]"]
    by blast
  from expired miss deleted show ?thesis
    by (simp del: get_repeatedly.simps)
qed

text \<open>
  Claim C7. \<open>has\<close> answers true exactly when \<open>get\<close> on the same state at the same time
  returns a value, and it leaves the cache in the state \<open>get\<close> leaves it in; so on a key
  whose entry has expired, \<open>has\<close> answers false and removes the entry.
\<close>

theorem has_agrees_with_get:
  "snd (has c key now) = (snd (get c key now) \<noteq> None)
   \<and> fst (has c key now) = fst (get c key now)
   \<and> (map_get (cache c) key = Some e \<and> expiresAt e < now \<longrightarrow>
        has c key now = (c \<lparr> cache := map_delete (cache c) key \<rparr>, False)
        \<and> map_get (cache (fst (has c key now))) key = None)"
proof -
  have answer: "snd (has c key now) = (snd (get c key now) \<noteq> None)"
    by (simp add: has_def split: prod.splits)
  have state: "fst (has c key now) = fst (get c key now)"
    by (rule has_state)
  have lazy: "map_get (cache c) key = Some e \<and> expiresAt e < now \<longrightarrow>
        has c key now = (c \<lparr> cache := map_delete (cache c) key \<rparr>, False)
        \<and> map_get (cache (fst (has c key now))) key = None"
    by (simp add: has_def get_def map_get_map_delete_same)
  from answer state lazy show ?thesis by blast
qed

text \<open>Claim C7, at a concrete input: \<open>has\<close> at time 2 removes the entry that expired at 1.\<close>

theorem has_agrees_with_get_witness:
  "has stale ''k'' 2 = (\<lparr> cache = [], maxSize = 5, defaultTtlMs = 1 \<rparr>, False)"
proof -
  have present: "map_get (cache stale) ''k''
      = Some \<lparr> entry_value = 7, timestamp = 0, expiresAt = 1 \<rparr>
    \<and> expiresAt \<lparr> entry_value = 7 :: int, timestamp = 0, expiresAt = 1 \<rparr> < 2"
    by (simp add: stale_def)
  have deleted: "stale \<lparr> cache := map_delete (cache stale) ''k'' \<rparr>
      = \<lparr> cache = [], maxSize = 5, defaultTtlMs = 1 \<rparr>"
    by (simp add: stale_def)
  from present deleted show ?thesis
    using has_agrees_with_get [where c = stale and key = "''k''" and now = 2
        and e = "\<lparr> entry_value = 7, timestamp = 0, expiresAt = 1 \<rparr>"]
    by simp
qed

section \<open>Writing: time-to-live, eviction and overwriting\<close>

text \<open>
  Claim C3, as stated, fails. An explicit time-to-live of 0 gives an entry that expires at
  the time of the call, and one of -5 an entry that expires 5 ms before it, although the
  default of this cache is 300000 ms: \<open>??\<close> replaces only an absent value.
\<close>

theorem set_zero_ttl_counterexample:
  "map_get (cache (set_entry (constructor None) ''k'' (1::int) (Some 0) 1000)) ''k''
     = Some \<lparr> entry_value = 1, timestamp = 1000, expiresAt = 1000 \<rparr>
   \<and> map_get (cache (set_entry (constructor None) ''k'' (1::int) (Some (- 5)) 1000)) ''k''
     = Some \<lparr> entry_value = 1, timestamp = 1000, expiresAt = 995 \<rparr>
   \<and> 1000 + defaultTtlMs (constructor None :: int SearchCache) = 301000"
  by (simp add: eval_defs)

text \<open>
  Claim C3, amended. After \<open>set(key, value, ttl)\<close> at time \<open>now\<close> the entry under \<open>key\<close>
  holds \<open>value\<close>, was created at \<open>now\<close> and expires at \<open>now\<close> plus the supplied \<open>ttl\<close>
  whenever one is supplied, whatever its sign, and at \<open>now\<close> plus the default
  time-to-live only when \<open>ttl\<close> is absent.
\<close>

theorem set_effective_ttl:
  "map_get (cache (set_entry c key v ttlMs now)) key
     = Some \<lparr> entry_value = v, timestamp = now,
              expiresAt = now + (case ttlMs of None \<Rightarrow> defaultTtlMs c | Some t \<Rightarrow> t) \<rparr>"
  by (simp add: set_entry_def effective_ttl_def map_get_map_set_same)

subsection \<open>Expiry against creation time\<close>

lemma entries_valid_get: "entries_valid c \<Longrightarrow> entries_valid (fst (get c key now))"
proof (cases "map_get (cache c) key")
  case None
  assume "entries_valid c"
  with None show ?thesis by (simp add: get_def)
next
  case (Some e)
  assume valid: "entries_valid c"
  with Some have "timestamp e \<le> expiresAt e"
    using list_all_map_get [of "\<lambda>p. timestamp (snd p) \<le> expiresAt (snd p)" "cache c" key e]
    by (simp add: entries_valid_def)
  with valid Some show ?thesis
    by (simp add: entries_valid_def get_def list_all_map_delete list_all_map_set)
qed

lemma entries_valid_step:
  assumes "0 \<le> defaultTtlMs c" and "entries_valid c" and "ttl_nonneg a"
  shows "entries_valid (step c a)"
proof (cases a)
  case (Pair now call)
  show ?thesis
  proof (cases call)
    case (Get key)
    with Pair assms(2) show ?thesis
      by (simp add: entries_valid_get)
  next
    case (Set key v ttlMs)
    with Pair assms show ?thesis
      by (cases ttlMs)
         (simp_all add: entries_valid_def set_entry_def effective_ttl_def
            list_all_map_set list_all_evict_oldest)
  next
    case (Has key)
    with Pair assms(2) show ?thesis
      by (simp add: has_state entries_valid_get)
  next
    case (Delete key)
    with Pair assms(2) show ?thesis
      by (simp add: entries_valid_def delete_def list_all_map_delete)
  next
    case Clear
    with Pair show ?thesis by (simp add: entries_valid_def clear_def)
  qed
qed

lemma entries_valid_run:
  "0 \<le> defaultTtlMs c \<Longrightarrow> entries_valid c \<Longrightarrow> list_all ttl_nonneg calls \<Longrightarrow>
   entries_valid (run c calls)"
  unfolding run_def
proof (induction calls arbitrary: c)
  case Nil
  then show ?case by simp
next
  case (Cons a calls)
  then show ?case by (simp add: entries_valid_step)
qed

text \<open>
  Claim C4, as stated, fails: on a fresh default cache one \<open>set\<close> with a time-to-live of
  -5 stores an entry that expires before it was created.
\<close>

theorem negative_ttl_counterexample:
  "\<not> entries_valid (run (constructor None) [(1000, Set ''k'' (1::int) (Some (- 5)))])"
  by (simp add: entries_valid_def eval_defs)

text \<open>
  Claim C4, amended. When the default time-to-live of the cache is not negative and no
  \<open>set\<close> call passes a negative time-to-live, every entry of every state reached from the
  constructed cache by any sequence of calls expires at or after its creation time.
\<close>

theorem expiry_not_before_creation:
  assumes "0 \<le> defaultTtlMs (constructor options :: 'v SearchCache)"
    and "list_all ttl_nonneg calls"
  shows "entries_valid (run (constructor options :: 'v SearchCache) calls)"
proof -
  have "entries_valid (constructor options :: 'v SearchCache)"
    by (simp add: entries_valid_def constructor_def)
  with assms show ?thesis by (simp add: entries_valid_run)
qed

text \<open>
  Claim C4, amended, at a concrete input: a default cache, two \<open>set\<close> calls with a
  time-to-live of 0 and of 20, and a \<open>get\<close>.
\<close>

theorem expiry_not_before_creation_witness:
  "0 \<le> defaultTtlMs (constructor None :: int SearchCache)
   \<and> list_all ttl_nonneg [(1000, Set ''k'' (1::int) (Some 0)), (1001, Set ''j'' 2 (Some 20)),
                           (1002, Get ''j'')]
   \<and> entries_valid (run (constructor None)
        [(1000, Set ''k'' (1::int) (Some 0)), (1001, Set ''j'' 2 (Some 20)), (1002, Get ''j'')])"
proof -
  have ttl: "0 \<le> defaultTtlMs (constructor None :: int SearchCache)"
    by (simp add: constructor_def)
  have calls: "list_all ttl_nonneg [(1000, Set ''k'' (1::int) (Some 0)), (1001, Set ''j'' 2 (Some 20)),
                           (1002, Get ''j'')]"
    by simp
  from ttl calls show ?thesis
    using expiry_not_before_creation [OF ttl calls] by blast
qed

subsection \<open>The capacity bound\<close>

lemma get_within_capacity:
  "within_capacity c \<Longrightarrow> within_capacity (fst (get c key now))"
proof (cases "map_get (cache c) key")
  case None
  assume "within_capacity c"
  with None show ?thesis by (simp add: get_def)
next
  case (Some e)
  assume cap: "within_capacity c"
  have less: "length (map_delete (cache c) key) < length (cache c)"
    using Some by (rule length_map_delete_present)
  have "length (map_set (map_delete (cache c) key) key e) \<le> Suc (length (map_delete (cache c) key))"
    by (rule length_map_set_le)
  with less cap Some show ?thesis
    by (simp add: within_capacity_def map_size_def get_def)
qed

lemma get_no_empty_key: "no_empty_key c \<Longrightarrow> no_empty_key (fst (get c key now))"
proof (cases "map_get (cache c) key")
  case None
  assume "no_empty_key c"
  with None show ?thesis by (simp add: get_def)
next
  case (Some e)
  assume ne: "no_empty_key c"
  with Some have "if fst (key, e) = [] then False else True"
    using list_all_map_get [of "\<lambda>p. if fst p = [] then False else True" "cache c" key e]
    by (simp add: no_empty_key_def)
  with ne Some show ?thesis
    by (simp add: no_empty_key_def get_def list_all_map_delete list_all_map_set)
qed

lemma set_within_capacity:
  assumes "1 \<le> maxSize c" and "within_capacity c" and "no_empty_key c"
  shows "within_capacity (set_entry c key v ttlMs now)"
proof -
  let ?e = "\<lparr> entry_value = v, timestamp = now, expiresAt = now + effective_ttl c ttlMs \<rparr>"
  have grow: "length (map_set (evict_oldest c) key ?e) \<le> Suc (length (evict_oldest c))"
    by (rule length_map_set_le)
  have "int (Suc (length (evict_oldest c))) \<le> maxSize c"
  proof (cases "maxSize c \<le> map_size (cache c)")
    case False
    then show ?thesis by (simp add: evict_oldest_def map_size_def)
  next
    case True
    with assms(1) obtain p m where pm: "cache c = p # m"
      by (cases "cache c") (simp_all add: map_size_def)
    obtain k e where p: "p = (k, e)" by (cases p)
    from assms(3) pm p have "k \<noteq> []" by (simp add: no_empty_key_def split: if_splits)
    with True pm p have ev: "evict_oldest c = map_delete (cache c) k"
      by (simp add: evict_oldest_def)
    from pm p have "map_get (cache c) k = Some e" by simp
    then have "length (map_delete (cache c) k) < length (cache c)"
      by (rule length_map_delete_present)
    with ev assms(2) show ?thesis by (simp add: within_capacity_def map_size_def)
  qed
  with grow show ?thesis by (simp add: within_capacity_def map_size_def set_entry_def)
qed

lemma set_no_empty_key:
  "no_empty_key c \<Longrightarrow> key \<noteq> [] \<Longrightarrow> no_empty_key (set_entry c key v ttlMs now)"
  by (simp add: no_empty_key_def set_entry_def list_all_map_set list_all_evict_oldest)

lemma step_keeps_bound:
  assumes "1 \<le> maxSize c" and "within_capacity c \<and> no_empty_key c" and "key_nonempty a"
  shows "within_capacity (step c a) \<and> no_empty_key (step c a)"
proof (cases a)
  case (Pair now call)
  show ?thesis
  proof (cases call)
    case (Get key)
    with Pair assms(2) show ?thesis by (simp add: get_within_capacity get_no_empty_key)
  next
    case (Set key v ttlMs)
    with Pair assms show ?thesis
      by (simp add: set_within_capacity set_no_empty_key split: if_splits)
  next
    case (Has key)
    with Pair assms(2) show ?thesis
      by (simp add: has_state get_within_capacity get_no_empty_key)
  next
    case (Delete key)
    have "length (map_delete (cache c) key) \<le> length (cache c)" by (rule length_map_delete_le)
    with Delete Pair assms(2) show ?thesis
      by (simp add: within_capacity_def no_empty_key_def map_size_def delete_def list_all_map_delete)
  next
    case Clear
    with Pair assms(1) show ?thesis
      by (simp add: within_capacity_def no_empty_key_def map_size_def clear_def)
  qed
qed

lemma run_keeps_bound:
  "1 \<le> maxSize c \<Longrightarrow> within_capacity c \<and> no_empty_key c \<Longrightarrow> list_all key_nonempty calls \<Longrightarrow>
   within_capacity (run c calls) \<and> no_empty_key (run c calls)"
  unfolding run_def
proof (induction calls arbitrary: c)
  case Nil
  then show ?case by simp
next
  case (Cons a calls)
  from Cons.prems have "within_capacity (step c a) \<and> no_empty_key (step c a)"
    by (simp add: step_keeps_bound)
  with Cons show ?case by simp
qed

text \<open>
  With a capacity of at least 1 and no \<open>set\<close> under the empty string, every sequence of
  calls keeps the number of entries within the capacity.
\<close>

lemma capacity_bound_without_empty_key:
  assumes "1 \<le> maxSize (constructor options :: 'v SearchCache)"
    and "list_all key_nonempty calls"
  shows "fst (getStats (run (constructor options :: 'v SearchCache) calls))
           \<le> snd (getStats (run (constructor options :: 'v SearchCache) calls))"
proof -
  have "within_capacity (constructor options :: 'v SearchCache)
        \<and> no_empty_key (constructor options :: 'v SearchCache)"
    using assms(1) by (simp add: within_capacity_def no_empty_key_def map_size_def constructor_def)
  with assms have "within_capacity (run (constructor options :: 'v SearchCache) calls)"
    by (simp add: run_keeps_bound)
  then show ?thesis by (simp add: within_capacity_def getStats_def)
qed

text \<open>
  Claim C1. The bound of the claim is broken by the code: with capacity 1, the two calls
  \<open>set("", 1); set("a", 2)\<close> on distinct keys leave two entries. The oldest key is the
  empty string, which \<open>if (oldestKey)\<close> takes for a missing key, so nothing is evicted.
\<close>

theorem capacity_exceeded_by_empty_key:
  "getStats (run (constructor (Some \<lparr> opt_maxSize = Some 1, opt_ttlMs = None \<rparr>))
               [(0, Set [] (1::int) None), (1, Set ''a'' 2 None)]) = (2, 1)
   \<and> map fst (cache (run (constructor (Some \<lparr> opt_maxSize = Some 1, opt_ttlMs = None \<rparr>))
               [(0, Set [] (1::int) None), (1, Set ''a'' 2 None)])) = [[], ''a'']"
  by (simp add: eval_defs)

text \<open>
  Claim C2. Overwriting is not a removal followed by a fresh insertion in the code. With
  capacity 2, after \<open>set("a", 1); set("b", 2)\<close> the call \<open>set("b", 3)\<close> on the present key
  \<open>b\<close> evicts the other entry \<open>a\<close>; with capacity 3, after \<open>set("a", 1); set("b", 2)\<close> the
  call \<open>set("a", 3)\<close> leaves \<open>a\<close> in the least-recently-used position.
\<close>

theorem overwrite_evicts_and_keeps_place:
  "map fst (cache (run (constructor (Some \<lparr> opt_maxSize = Some 2, opt_ttlMs = None \<rparr>))
       [(0, Set ''a'' (1::int) None), (1, Set ''b'' 2 None), (2, Set ''b'' 3 None)])) = [''b'']
   \<and> map fst (cache (run (constructor (Some \<lparr> opt_maxSize = Some 3, opt_ttlMs = None \<rparr>))
       [(0, Set ''a'' (1::int) None), (1, Set ''b'' 2 None), (2, Set ''a'' 3 None)])) = [''a'', ''b'']"
  by (simp add: eval_defs)

text \<open>
  Where the oldest key is the empty string and the cache is at or over capacity, \<open>set\<close>
  with a key that is not present evicts nothing and appends the new entry, so the number
  of entries grows by one with every such call.
\<close>

lemma empty_oldest_key_never_evicted:
  assumes "map_first_key (cache c) = Some []"
    and "maxSize c \<le> map_size (cache c)"
    and "map_get (cache c) key = None"
  shows "cache (set_entry c key v ttlMs now)
           = cache c @ [(key, \<lparr> entry_value = v, timestamp = now,
                                 expiresAt = now + effective_ttl c ttlMs \<rparr>)]
         \<and> fst (getStats (set_entry c key v ttlMs now)) = fst (getStats c) + 1"
proof -
  from assms(1,2) have "evict_oldest c = cache c"
    by (simp add: evict_oldest_def)
  with assms(3) have "cache (set_entry c key v ttlMs now)
           = cache c @ [(key, \<lparr> entry_value = v, timestamp = now,
                                 expiresAt = now + effective_ttl c ttlMs \<rparr>)]"
    by (simp add: set_entry_def map_set_absent)
  then show ?thesis by (simp add: getStats_def map_size_def)
qed

text \<open>
  Claim C10. The size that the claim gives is not the size that the code reaches. The
  cache of capacity 1 that holds the keys \<open>""\<close> and \<open>a\<close> is at capacity in the sense of
  the test \<open>size >= maxSize\<close>, its oldest key is the empty string, and \<open>b\<close> is a fresh
  key; \<open>set("b", 3)\<close> leaves 3 entries, not capacity + 1 = 2. The eviction that \<open>set\<close>
  attempts there is skipped because \<open>if (oldestKey)\<close> takes the empty string for a
  missing key.
\<close>

theorem overfull_set_skips_eviction:
  "map_first_key (cache overfull) = Some []
   \<and> maxSize overfull \<le> map_size (cache overfull)
   \<and> map_get (cache overfull) ''b'' = None
   \<and> getStats (set_entry overfull ''b'' 3 None 2) = (3, 1)
   \<and> map fst (cache (set_entry overfull ''b'' 3 None 2)) = [[], ''a'', ''b'']"
  by (simp add: overfull_def eval_defs)

subsection \<open>Least-recently-used eviction\<close>

text \<open>
  Claim C6. On a cache of capacity 2 with a time-to-live of 1000 ms, the calls
  \<open>set("a", 1); set("b", 2); get("a"); set("c", 3); get("b"); get("a"); get("c")\<close>, with
  every successful \<open>get\<close> made no later than 1000 ms after the \<open>set\<close> of its key, return
  1 for the first \<open>get("a")\<close>, which moves \<open>a\<close> behind \<open>b\<close>; \<open>set("c", 3)\<close> then evicts
  \<open>b\<close> and only \<open>b\<close>; and the last three calls return absent, 1 and 3.
\<close>

theorem lru_scenario:
  assumes "t3 \<le> t1 + 1000" and "t6 \<le> t1 + 1000" and "t7 \<le> t4 + 1000"
  shows "outcomes cap2
           [(t1, Set ''a'' 1 None), (t2, Set ''b'' 2 None), (t3, Get ''a''),
            (t4, Set ''c'' 3 None), (t5, Get ''b''), (t6, Get ''a''), (t7, Get ''c'')]
         = [Completed, Completed, Returned (Some 1), Completed,
            Returned None, Returned (Some 1), Returned (Some 3)]
       \<and> map fst (cache (run cap2 [(t1, Set ''a'' 1 None), (t2, Set ''b'' 2 None)]))
         = [''a'', ''b'']
       \<and> map fst (cache (run cap2
           [(t1, Set ''a'' 1 None), (t2, Set ''b'' 2 None), (t3, Get ''a'')]))
         = [''b'', ''a'']
       \<and> map fst (cache (run cap2
           [(t1, Set ''a'' 1 None), (t2, Set ''b'' 2 None), (t3, Get ''a''),
            (t4, Set ''c'' 3 None)]))
         = [''a'', ''c'']"
  using assms by (simp add: cap2_def eval_defs)

text \<open>Claim C6, at concrete times: the seven calls made at the times 0 to 6.\<close>

theorem lru_scenario_witness:
  "(2::int) \<le> 0 + 1000 \<and> (5::int) \<le> 0 + 1000 \<and> (6::int) \<le> 3 + 1000
   \<and> outcomes cap2
        [(0, Set ''a'' 1 None), (1, Set ''b'' 2 None), (2, Get ''a''),
         (3, Set ''c'' 3 None), (4, Get ''b''), (5, Get ''a''), (6, Get ''c'')]
      = [Completed, Completed, Returned (Some 1), Completed,
         Returned None, Returned (Some 1), Returned (Some 3)]"
proof -
  have h3: "(2::int) \<le> 0 + 1000" by simp
  have h6: "(5::int) \<le> 0 + 1000" by simp
  have h7: "(6::int) \<le> 3 + 1000" by simp
  from h3 h6 h7 show ?thesis
    using lru_scenario [OF h3 h6 h7, of 1 4] by blast
qed

section \<open>Construction\<close>

text \<open>
  Claim C9, as stated, fails: constructing a cache with capacity 0 and a time-to-live of
  -1, or with capacity -3, yields an instance and no error.
\<close>

theorem constructor_accepts_invalid_configuration:
  "new_SearchCache (Some \<lparr> opt_maxSize = Some 0, opt_ttlMs = Some (- 1) \<rparr>)
     = (Inr \<lparr> cache = [], maxSize = 0, defaultTtlMs = - 1 \<rparr> :: config_error + int SearchCache)
   \<and> new_SearchCache (Some \<lparr> opt_maxSize = Some (- 3), opt_ttlMs = None \<rparr>)
     = (Inr \<lparr> cache = [], maxSize = - 3, defaultTtlMs = 300000 \<rparr> :: config_error + int SearchCache)"
  by (simp add: new_SearchCache_def constructor_def)

text \<open>
  Claim C9, amended. Construction never fails: for every options argument, whatever the
  sign of its capacity and time-to-live, the result is an instance without entries that
  holds the given capacity (100 when absent) and the given time-to-live (300000 ms when
  absent).
\<close>

theorem constructor_never_fails:
  "new_SearchCache options
     = Inr \<lparr> cache = [],
             maxSize = (case options of None \<Rightarrow> 100
                        | Some opts \<Rightarrow> (case opt_maxSize opts of None \<Rightarrow> 100 | Some n \<Rightarrow> n)),
             defaultTtlMs = (case options of None \<Rightarrow> 300000
                        | Some opts \<Rightarrow> (case opt_ttlMs opts of None \<Rightarrow> 300000 | Some t \<Rightarrow> t)) \<rparr>"
  by (simp add: new_SearchCache_def constructor_def split: option.splits)

section \<open>Key normalization\<close>

subsection \<open>Lower-casing\<close>













subsection \<open>Trimming\<close>







subsection \<open>The key\<close>









end
